theory Spec2Isabelle
  imports Complex_Main "HOL-Library.Word"
begin

unbundle bit_operations_syntax

text \<open>
  The kernels of \<^verbatim>\<open>nautilus_assembly\<close> are ARM64 assembly routines called from Cython.
  Each routine is modelled by a function on the values it loads and stores, register by
  register where that helps to follow the source; a loop is a recursive function in the
  loop's own shape. Integer registers are machine words. A floating-point value is
  modelled by the number it denotes, a rational, or a real where a square root is
  taken. Rounding and infinities are outside the model; NaN is modelled only where a
  routine produces it from finite values, the square root of the portfolio variance.
  The evaluated instances use small integers and dyadic fractions, so that the values
  a statement turns on are exact in the routine's precision; a value that the routine
  would round is pointed out where it occurs.
\<close>

type_synonym u32 = "32 word"
type_synonym u64 = "64 word"

section \<open>Risk engine: \<^verbatim>\<open>nautilus_assembly/src/risk_engine.s\<close>\<close>

text \<open>
  \<^verbatim>\<open>_nautilus_validate_order_batch\<close> takes three buffers and a count
  (\<^verbatim>\<open>x0=orders*, x1=positions*, x2=limits*, x3=count\<close>) and returns a 64-bit mask.
  An order occupies 16 bytes, of which the routine loads three 32-bit words
  (\<^verbatim>\<open>ldr w8, [x7]\<close>, \<^verbatim>\<open>ldr w9, [x7, #4]\<close>, \<^verbatim>\<open>ldr w10, [x7, #8]\<close>).
  The limits buffer holds three 32-bit words. A position entry occupies 8 bytes and the
  routine loads the 32-bit word at its start, at offset \<^verbatim>\<open>symbol_id * 8\<close>; no bound
  on the symbol is checked, so the positions buffer is a total function of the symbol:
  \<open>positions m s\<close> is the word the routine loads for symbol \<open>s\<close>.
\<close>

record order_rec =
  symbol_id :: u32
  quantity :: u32
  price :: u32

record limit_set =
  max_position_size :: u32
  min_price :: u32
  max_price :: u32

record risk_buffers =
  orders :: "order_rec list"
  positions :: "u32 \<Rightarrow> u32"
  limits :: limit_set

text \<open>
  \<^verbatim>\<open>add w14, w13, w9\<close>: the new position, a 32-bit addition that wraps.
\<close>

definition new_position :: "(u32 \<Rightarrow> u32) \<Rightarrow> order_rec \<Rightarrow> u32" where
  "new_position pos ord = pos (symbol_id ord) + quantity ord"

text \<open>
  One pass through the loop body, from \<^verbatim>\<open>validation_loop\<close> to the branch to
  \<^verbatim>\<open>order_valid\<close> or \<^verbatim>\<open>order_invalid\<close>. The branches \<^verbatim>\<open>b.gt\<close> and
  \<^verbatim>\<open>b.lt\<close> after \<^verbatim>\<open>cmp\<close> of two w registers compare them as signed 32-bit values.
\<close>

definition order_valid :: "(u32 \<Rightarrow> u32) \<Rightarrow> limit_set \<Rightarrow> order_rec \<Rightarrow> bool" where
  "order_valid pos lmt ord =
     (let w14 = new_position pos ord;
          w15 = max_position_size lmt
      in if sint w15 < sint w14 then False
         else if sint w14 < sint (- w15) then False
         else if sint (price ord) < sint (min_price lmt) then False
         else if sint (max_price lmt) < sint (price ord) then False
         else True)"

text \<open>
  The loop: \<^verbatim>\<open>x5\<close> counts the orders, \<^verbatim>\<open>x4\<close> collects the mask. A valid order
  sets a bit by \<^verbatim>\<open>mov x6, #1; lsl x6, x6, x5; orr x4, x4, x6\<close>; a shift by register
  uses the register modulo 64. Nothing in the routine stores to memory.
\<close>

fun validation_loop :: "(u32 \<Rightarrow> u32) \<Rightarrow> limit_set \<Rightarrow> order_rec list \<Rightarrow> nat \<Rightarrow> u64 \<Rightarrow> u64" where
  "validation_loop pos lmt [] x5 x4 = x4"
| "validation_loop pos lmt (ord # rest) x5 x4 =
     validation_loop pos lmt rest (x5 + 1)
       (if order_valid pos lmt ord then x4 OR push_bit (x5 mod 64) 1 else x4)"

text \<open>
  The routine as a step on the buffers it is given: it returns them as it leaves them,
  and the mask in \<^verbatim>\<open>x0\<close>.
\<close>

definition nautilus_validate_order_batch :: "risk_buffers \<Rightarrow> risk_buffers \<times> u64" where
  "nautilus_validate_order_batch m =
     (m, validation_loop (positions m) (limits m) (orders m) 0 0)"

text \<open>
  \<^verbatim>\<open>AssemblyRiskEngine.validate_order_batch\<close> of \<^verbatim>\<open>nautilus_assembly.pyx\<close>, from the
  filled buffers on: an empty batch returns the empty list; otherwise the mask is read
  back one order at a time with \<^verbatim>\<open>(result_mask & (1 << i)) != 0\<close>, on Python integers,
  which do not wrap.
\<close>

definition mask_to_bools :: "u64 \<Rightarrow> nat \<Rightarrow> bool list" where
  "mask_to_bools result_mask count =
     map (\<lambda>i. (uint result_mask AND push_bit i (1::int)) \<noteq> 0) [0..<count]"

definition validate_order_batch :: "risk_buffers \<Rightarrow> bool list" where
  "validate_order_batch m =
     (if length (orders m) = 0 then []
      else mask_to_bools (snd (nautilus_validate_order_batch m)) (length (orders m)))"

text \<open>Concrete buffers used to evaluate the routine.\<close>

definition boundary_batch :: risk_buffers where
  "boundary_batch =
     \<lparr>orders = [\<lparr>symbol_id = 1, quantity = 500, price = 9950\<rparr>,
                \<lparr>symbol_id = 1, quantity = 501, price = 9950\<rparr>],
      positions = (\<lambda>s. if s = 1 then 500 else 0),
      limits = \<lparr>max_position_size = 1000, min_price = 5000, max_price = 20000\<rparr>\<rparr>"

definition overflow_batch :: risk_buffers where
  "overflow_batch =
     \<lparr>orders = [\<lparr>symbol_id = 0, quantity = 2147483647, price = 3\<rparr>],
      positions = (\<lambda>s. 2147483647),
      limits = \<lparr>max_position_size = 5, min_price = 0, max_price = 10\<rparr>\<rparr>"

definition same_symbol_batch :: risk_buffers where
  "same_symbol_batch =
     \<lparr>orders = [\<lparr>symbol_id = 1, quantity = 400, price = 9950\<rparr>,
                \<lparr>symbol_id = 1, quantity = 400, price = 9950\<rparr>],
      positions = (\<lambda>s. if s = 1 then 500 else 0),
      limits = \<lparr>max_position_size = 1000, min_price = 5000, max_price = 20000\<rparr>\<rparr>"

definition small_limits :: limit_set where
  "small_limits = \<lparr>max_position_size = 5, min_price = 0, max_price = 10\<rparr>"

definition valid_order :: order_rec where
  "valid_order = \<lparr>symbol_id = 0, quantity = 1, price = 3\<rparr>"

definition invalid_order :: order_rec where
  "invalid_order = \<lparr>symbol_id = 0, quantity = 9, price = 3\<rparr>"

definition batch_of :: "order_rec list \<Rightarrow> risk_buffers" where
  "batch_of os = \<lparr>orders = os, positions = (\<lambda>s. 0), limits = small_limits\<rparr>"


subsection \<open>Portfolio variance\<close>

text \<open>
  \<^verbatim>\<open>_nautilus_calculate_portfolio_var\<close> (\<^verbatim>\<open>x0=positions*, x1=correlations*,
  x2=volatilities*, x3=count\<close>; the header declares all three buffers \<^verbatim>\<open>float*\<close>) returns
  an integer in \<^verbatim>\<open>x0\<close>. A buffer is the function from the index of a 4-byte slot,
  counted from the pointer, to the single-precision value stored there, here the real
  number it denotes; rounding and infinities are outside the model.

  The inner loop: \<^verbatim>\<open>s0\<close> and \<^verbatim>\<open>s1\<close> were loaded at byte offset
  \<^verbatim>\<open>x4 lsl 3\<close> of the positions and the volatilities, \<^verbatim>\<open>s2\<close> and \<^verbatim>\<open>s3\<close> are
  loaded at byte offset \<^verbatim>\<open>x6 lsl 3\<close>, that is at the slots \<open>2 * x4\<close> and \<open>2 * x6\<close>;
  \<^verbatim>\<open>s4\<close> is loaded at byte offset \<^verbatim>\<open>(x4 * count + x6) lsl 2\<close> of the correlations,
  slot \<open>x4 * count + x6\<close>. The pass adds
  \<^verbatim>\<open>(s0 * s2) * ((s1 * s3) * s4)\<close> to the accumulator \<^verbatim>\<open>s16\<close>.
\<close>

function inner_variance_loop ::
  "(nat \<Rightarrow> real) \<Rightarrow> (nat \<Rightarrow> real) \<Rightarrow> (nat \<Rightarrow> real) \<Rightarrow> nat \<Rightarrow> nat \<Rightarrow> nat \<Rightarrow> real \<Rightarrow> real" where
  "inner_variance_loop pos_buf cor_buf vol_buf x19 x4 x6 s16 =
     (if x19 \<le> x6 then s16
      else inner_variance_loop pos_buf cor_buf vol_buf x19 x4 (x6 + 1)
             (s16 + (pos_buf (2 * x4) * pos_buf (2 * x6))
                      * ((vol_buf (2 * x4) * vol_buf (2 * x6)) * cor_buf (x4 * x19 + x6))))"
  by pat_completeness auto
termination
  by (relation "measure (\<lambda>(pos_buf, cor_buf, vol_buf, x19, x4, x6, s16). x19 - x6)") auto

declare inner_variance_loop.simps [simp del]

function outer_variance_loop ::
  "(nat \<Rightarrow> real) \<Rightarrow> (nat \<Rightarrow> real) \<Rightarrow> (nat \<Rightarrow> real) \<Rightarrow> nat \<Rightarrow> nat \<Rightarrow> real \<Rightarrow> real" where
  "outer_variance_loop pos_buf cor_buf vol_buf x19 x4 s16 =
     (if x19 \<le> x4 then s16
      else outer_variance_loop pos_buf cor_buf vol_buf x19 (x4 + 1)
             (inner_variance_loop pos_buf cor_buf vol_buf x19 x4 0 s16))"
  by pat_completeness auto
termination
  by (relation "measure (\<lambda>(pos_buf, cor_buf, vol_buf, x19, x4, s16). x19 - x4)") auto

declare outer_variance_loop.simps [simp del]

text \<open>
  After the loops: \<^verbatim>\<open>fsqrt s16, s16\<close>, \<^verbatim>\<open>fmul\<close> by \<open>10\<^sup>8\<close>, \<^verbatim>\<open>fcvtzs x0, s16\<close>.
  No instruction stands between the last \<^verbatim>\<open>fadd\<close> and \<^verbatim>\<open>fsqrt\<close>. The square root
  of a negative value is NaN, written \<open>None\<close>; a product with NaN is NaN; the conversion
  to a signed 64-bit integer rounds toward zero, saturates, and turns NaN into 0.
\<close>

definition fsqrt :: "real \<Rightarrow> real option" where
  "fsqrt s = (if s < 0 then None else Some (sqrt s))"




text \<open>
  The variance as the specification words it, for comparison with the routine: the
  double sum over \<open>i\<close> and \<open>j\<close> of
  \<open>weight\<^sub>i * weight\<^sub>j * volatility\<^sub>i * volatility\<^sub>j * correlation\<^sub>i\<^sub>j\<close>.
\<close>

definition portfolio_variance ::
  "(nat \<Rightarrow> real) \<Rightarrow> (nat \<Rightarrow> real) \<Rightarrow> (nat \<Rightarrow> nat \<Rightarrow> real) \<Rightarrow> nat \<Rightarrow> real" where
  "portfolio_variance weight volatility correlation n =
     (\<Sum>i\<leftarrow>[0..<n]. \<Sum>j\<leftarrow>[0..<n].
         weight i * weight j * volatility i * volatility j * correlation i j)"

text \<open>
  Buffers for evaluation. One asset with weight 1, volatility 2 and correlation 1 has
  variance 4. Two assets with weights and volatilities 1 in the slots 0 and 2, and the
  correlations 1, -2, -2, 1 (not positive semi-definite), have variance -2. Two
  contiguous weights 1 and 3 followed by memory that holds 0 show which slots are read.
\<close>

definition all_ones :: "nat \<Rightarrow> real" where
  "all_ones = (\<lambda>slot. 1)"



definition identity_correlations :: "nat \<Rightarrow> real" where
  "identity_correlations = (\<lambda>slot. 0)(0 := 1, 3 := 1)"

definition contiguous_weights :: "nat \<Rightarrow> real" where
  "contiguous_weights = (\<lambda>slot. 0)(0 := 1, 1 := 3)"


section \<open>Signal engine: \<^verbatim>\<open>nautilus_assembly/src/signals.s\<close>\<close>

subsection \<open>Exponential moving average\<close>

text \<open>
  \<^verbatim>\<open>_nautilus_calculate_ema_vectorized\<close> (\<^verbatim>\<open>x0=prices*, x1=output*, x2=count\<close>, alpha
  in \<^verbatim>\<open>s0\<close>). The first price is stored as the first output and kept in \<^verbatim>\<open>s18\<close>;
  \<^verbatim>\<open>x2\<close> becomes \<^verbatim>\<open>count - 1\<close> and \<^verbatim>\<open>x5 = x2 / 4\<close> counts the vector iterations.

  One vector iteration loads four prices into \<^verbatim>\<open>v0\<close>, copies \<^verbatim>\<open>s18\<close> into every
  lane of \<^verbatim>\<open>v1\<close> (\<^verbatim>\<open>dup v1.4s, v18.s[0]\<close>), computes
  \<^verbatim>\<open>v4 = alpha * v0 + (1 - alpha) * v1\<close> lane by lane, stores the four lanes, and
  keeps lane 3 as the new \<^verbatim>\<open>s18\<close> (\<^verbatim>\<open>mov v18.s[0], v4.s[3]\<close>). The prices still to
  be read are the list \<open>ps\<close>, the outputs stored so far the list \<open>out\<close>.
\<close>

fun ema_vector_loop :: "rat \<Rightarrow> nat \<Rightarrow> rat \<Rightarrow> rat list \<Rightarrow> rat list \<Rightarrow> rat \<times> rat list \<times> rat list" where
  "ema_vector_loop alpha 0 s18 ps out = (s18, ps, out)"
| "ema_vector_loop alpha (Suc x5) s18 ps out =
     (let v0 = take 4 ps;
          v4 = map (\<lambda>p. alpha * p + (1 - alpha) * s18) v0
      in ema_vector_loop alpha x5 (v4 ! 3) (drop 4 ps) (out @ v4))"

text \<open>
  The scalar loop handles the \<^verbatim>\<open>x2 & 3\<close> prices that are left, one at a time, each
  from the value before it.
\<close>

fun ema_scalar_loop :: "rat \<Rightarrow> nat \<Rightarrow> rat \<Rightarrow> rat list \<Rightarrow> rat list \<Rightarrow> rat list" where
  "ema_scalar_loop alpha 0 s18 ps out = out"
| "ema_scalar_loop alpha (Suc x4) s18 [] out = out"
| "ema_scalar_loop alpha (Suc x4) s18 (s0 # ps) out =
     ema_scalar_loop alpha x4 (alpha * s0 + (1 - alpha) * s18) ps
       (out @ [alpha * s0 + (1 - alpha) * s18])"

text \<open>
  The routine. With \<^verbatim>\<open>count = 0\<close> it loads a price that is not there and the count
  wraps below zero; that call has no result. Otherwise the iteration counts come from
  the length, so neither loop runs past the prices.
\<close>

definition nautilus_calculate_ema_vectorized :: "rat \<Rightarrow> rat list \<Rightarrow> rat list option" where
  "nautilus_calculate_ema_vectorized alpha prices =
     (case prices of
        [] \<Rightarrow> None
      | s18 # rest \<Rightarrow>
          (case ema_vector_loop alpha ((length prices - 1) div 4) s18 rest [s18] of
             (s18', ps, out) \<Rightarrow>
               Some (ema_scalar_loop alpha ((length prices - 1) mod 4) s18' ps out)))"

text \<open>
  The one-element-at-a-time evaluation: \<^verbatim>\<open>_fast_ema_update\<close> of
  \<^verbatim>\<open>optimized_core.s\<close> and the loop of \<^verbatim>\<open>AssemblyEngine.ema_batch\<close> around it.
  \<^verbatim>\<open>prices[0]\<close> of an empty array raises.
\<close>

definition fast_ema_update :: "rat \<Rightarrow> rat \<Rightarrow> rat \<Rightarrow> rat" where
  "fast_ema_update new_price prev_ema alpha = new_price * alpha + prev_ema * (1 - alpha)"

fun ema_batch_loop :: "rat \<Rightarrow> rat \<Rightarrow> rat list \<Rightarrow> rat list" where
  "ema_batch_loop alpha ema_val [] = []"
| "ema_batch_loop alpha ema_val (p # ps) =
     fast_ema_update p ema_val alpha # ema_batch_loop alpha (fast_ema_update p ema_val alpha) ps"

definition ema_batch :: "rat list \<Rightarrow> rat \<Rightarrow> rat list option" where
  "ema_batch prices alpha =
     (case prices of
        [] \<Rightarrow> None
      | ema_val # rest \<Rightarrow> Some (ema_val # ema_batch_loop alpha ema_val rest))"

subsection \<open>Relative strength index\<close>

text \<open>
  \<^verbatim>\<open>_nautilus_calculate_rsi_vectorized\<close> (\<^verbatim>\<open>x0=prices*, x1=rsi_output*, x2=count,
  x3=period\<close>). The first loop runs \<^verbatim>\<open>x20\<close> from 1 while \<^verbatim>\<open>x20 <= period\<close> and adds each
  change \<^verbatim>\<open>prices[x20] - prices[x20 - 1]\<close> to the gains in \<^verbatim>\<open>s20\<close> or, negated, to
  the losses in \<^verbatim>\<open>s21\<close>.
\<close>

function initial_period_loop :: "rat list \<Rightarrow> nat \<Rightarrow> nat \<Rightarrow> rat \<Rightarrow> rat \<Rightarrow> rat \<times> rat" where
  "initial_period_loop prices x19 x20 s20 s21 =
     (if x19 < x20 then (s20, s21)
      else if prices ! x20 - prices ! (x20 - 1) < 0
        then initial_period_loop prices x19 (x20 + 1) s20
               (s21 + - (prices ! x20 - prices ! (x20 - 1)))
        else initial_period_loop prices x19 (x20 + 1)
               (s20 + (prices ! x20 - prices ! (x20 - 1))) s21)"
  by pat_completeness auto
termination
  by (relation "measure (\<lambda>(prices, x19, x20, s20, s21). x19 + 1 - x20)") auto

declare initial_period_loop.simps [simp del]

text \<open>
  The second loop starts at \<^verbatim>\<open>mov x20, x19\<close>, that is at index \<^verbatim>\<open>period\<close>, and runs
  while \<^verbatim>\<open>x20 < count\<close>. Each pass takes the change at \<^verbatim>\<open>x20\<close>, updates both
  averages by \<^verbatim>\<open>((period - 1) * avg + current) / period\<close>, and stores the index at
  \<^verbatim>\<open>rsi_output[x20]\<close>: 100 when the average loss is zero, \<^verbatim>\<open>100 - 100 / (1 + RS)\<close>
  otherwise.
\<close>

definition rsi_value :: "rat \<Rightarrow> rat \<Rightarrow> rat" where
  "rsi_value s20 s21 = (if s21 = 0 then 100 else 100 - 100 / (1 + s20 / s21))"

function rsi_calculation_loop ::
  "rat list \<Rightarrow> nat \<Rightarrow> nat \<Rightarrow> nat \<Rightarrow> rat \<Rightarrow> rat \<Rightarrow> rat list \<Rightarrow> rat list" where
  "rsi_calculation_loop prices x2 x19 x20 s20 s21 out =
     (if x2 \<le> x20 then out
      else
        (let s2 = prices ! x20 - prices ! (x20 - 1);
             s3 = (if s2 < 0 then 0 else s2);
             s4 = (if s2 < 0 then - s2 else 0);
             s20' = (of_nat (x19 - 1) * s20 + s3) / of_nat x19;
             s21' = (of_nat (x19 - 1) * s21 + s4) / of_nat x19
         in rsi_calculation_loop prices x2 x19 (x20 + 1) s20' s21'
              (out[x20 := rsi_value s20' s21'])))"
  by pat_completeness auto
termination
  by (relation "measure (\<lambda>(prices, x2, x19, x20, s20, s21, out). x2 - x20)") auto

declare rsi_calculation_loop.simps [simp del]

text \<open>
  The routine. It has no result when \<^verbatim>\<open>period\<close> is zero (the averages are divided by
  zero and the second loop loads \<^verbatim>\<open>prices[-1]\<close>), when the first loop would load past
  the prices (\<^verbatim>\<open>period >= count\<close>), or when the output buffer is not as long as the
  prices. Between the loops both sums are divided by the period.
\<close>

definition nautilus_calculate_rsi_vectorized ::
  "rat list \<Rightarrow> rat list \<Rightarrow> nat \<Rightarrow> rat list option" where
  "nautilus_calculate_rsi_vectorized prices rsi_output period =
     (if period = 0 then None
      else if length prices \<le> period then None
      else if length rsi_output = length prices then
        (case initial_period_loop prices period 1 0 0 of
           (s20, s21) \<Rightarrow>
             Some (rsi_calculation_loop prices (length prices) period period
                     (s20 / of_nat period) (s21 / of_nat period) rsi_output))
      else None)"

text \<open>
  \<^verbatim>\<open>AssemblySignalEngine.calculate_rsi\<close> of \<^verbatim>\<open>nautilus_assembly.pyx\<close> passes an
  output array of zeros.
\<close>

definition calculate_rsi :: "rat list \<Rightarrow> nat \<Rightarrow> rat list option" where
  "calculate_rsi prices period =
     nautilus_calculate_rsi_vectorized prices (replicate (length prices) 0) period"

text \<open>
  Wilder's method as the specification words it, for comparison with the routine: the
  changes of the price sequence, split into gains and losses; the averages seeded with
  the mean over the first \<open>P\<close> changes; one smoothing step for each later change; the
  output aligned with the input, its first \<open>P\<close> positions undefined (\<open>None\<close>).
\<close>

definition price_changes :: "rat list \<Rightarrow> rat list" where
  "price_changes prices = map (\<lambda>k. prices ! (k + 1) - prices ! k) [0..<length prices - 1]"

fun wilder_smoothing :: "nat \<Rightarrow> rat \<Rightarrow> rat \<Rightarrow> rat list \<Rightarrow> rat list" where
  "wilder_smoothing P avg_gain avg_loss [] = []"
| "wilder_smoothing P avg_gain avg_loss (change # rest) =
     rsi_value ((of_nat (P - 1) * avg_gain + max change 0) / of_nat P)
               ((of_nat (P - 1) * avg_loss + max (- change) 0) / of_nat P)
     # wilder_smoothing P
         ((of_nat (P - 1) * avg_gain + max change 0) / of_nat P)
         ((of_nat (P - 1) * avg_loss + max (- change) 0) / of_nat P) rest"

definition wilder_rsi_reference :: "nat \<Rightarrow> rat list \<Rightarrow> rat option list" where
  "wilder_rsi_reference P prices =
     (let seed_gain = sum_list (map (\<lambda>c. max c 0) (take P (price_changes prices))) / of_nat P;
          seed_loss = sum_list (map (\<lambda>c. max (- c) 0) (take P (price_changes prices))) / of_nat P
      in replicate P None @
         map Some (rsi_value seed_gain seed_loss
                   # wilder_smoothing P seed_gain seed_loss (drop P (price_changes prices))))"


section \<open>Tick processing: \<^verbatim>\<open>nautilus_assembly/src/market_data.s\<close>\<close>

text \<open>
  \<^verbatim>\<open>_nautilus_process_tick_batch\<close> (\<^verbatim>\<open>x0=input_ticks*, x1=output_events*, x2=count,
  x3=instrument_id\<close>). Both buffers are read and written in 8-byte slots. The input is a
  function from the slot index, counted from \<^verbatim>\<open>x0\<close> at entry, to the double stored
  there; the output is the list of slots the routine stores, in the order it stores
  them (every store is post-indexed, so that order is the layout from \<^verbatim>\<open>x1\<close> on).

  Scaling is \<^verbatim>\<open>fmul\<close> by \<open>10\<^sup>8\<close> followed by \<^verbatim>\<open>fcvtzs\<close>, the conversion to a signed
  64-bit integer that rounds toward zero and saturates.
\<close>

definition fcvtzs :: "rat \<Rightarrow> u64" where
  "fcvtzs d =
     (if 9223372036854775808 \<le> d then 9223372036854775807
      else if d < - 9223372036854775808 then - 9223372036854775808
      else if d < 0 then word_of_int \<lceil>d\<rceil>
      else word_of_int \<lfloor>d\<rfloor>)"

definition scale_1e8 :: "rat \<Rightarrow> u64" where
  "scale_1e8 d = fcvtzs (d * 100000000)"

text \<open>
  One pass of \<^verbatim>\<open>tick_vector_loop\<close>: two \<^verbatim>\<open>ld1\<close> of 32 bytes each fill
  \<^verbatim>\<open>v0, v1\<close> with slots 0 to 3 and \<^verbatim>\<open>v2, v3\<close> with slots 4 to 7; \<^verbatim>\<open>zip1\<close> pairs the
  low lanes, so the prices are slots 0 and 4 and the quantities slots 2 and 6. The three
  \<^verbatim>\<open>st1\<close> store the instrument id twice, then both scaled prices, then both scaled
  quantities.
\<close>

fun tick_vector_loop :: "(nat \<Rightarrow> rat) \<Rightarrow> u64 \<Rightarrow> nat \<Rightarrow> nat \<Rightarrow> u64 list \<Rightarrow> nat \<times> u64 list" where
  "tick_vector_loop inp x3 0 x0 out = (x0, out)"
| "tick_vector_loop inp x3 (Suc x5) x0 out =
     (let v0 = (inp x0, inp (x0 + 1));
          v1 = (inp (x0 + 2), inp (x0 + 3));
          v2 = (inp (x0 + 4), inp (x0 + 5));
          v3 = (inp (x0 + 6), inp (x0 + 7));
          v4 = (fst v0, fst v2);
          v5 = (fst v1, fst v3);
          v7 = (scale_1e8 (fst v4), scale_1e8 (snd v4));
          v8 = (scale_1e8 (fst v5), scale_1e8 (snd v5))
      in tick_vector_loop inp x3 x5 (x0 + 8)
           (out @ [x3, x3, fst v7, snd v7, fst v8, snd v8]))"

text \<open>
  The routine: \<^verbatim>\<open>count / 2\<close> vector passes, then, when \<^verbatim>\<open>count\<close> is odd, one tick
  read from the next two slots and stored as instrument id, scaled price, scaled
  quantity.
\<close>

definition nautilus_process_tick_batch :: "(nat \<Rightarrow> rat) \<Rightarrow> nat \<Rightarrow> u64 \<Rightarrow> u64 list" where
  "nautilus_process_tick_batch input_ticks count x3 =
     (case tick_vector_loop input_ticks x3 (count div 2) 0 [] of
        (x0, out) \<Rightarrow>
          if count mod 2 = 0 then out
          else out @ [x3, scale_1e8 (input_ticks x0), scale_1e8 (input_ticks (x0 + 1))])"

text \<open>
  Processing the same ticks one at a time: one call with \<^verbatim>\<open>count = 1\<close> for each tick,
  on that tick's record. A record is 32 bytes, four slots, as the vector loop steps and
  as the caller allocates (\<^verbatim>\<open>malloc(count * 32)\<close>; price, quantity, timestamp,
  padding); the events follow each other in the output.
\<close>

definition process_tick_by_tick :: "(nat \<Rightarrow> rat) \<Rightarrow> nat \<Rightarrow> u64 \<Rightarrow> u64 list" where
  "process_tick_by_tick input_ticks count x3 =
     concat (map (\<lambda>k. nautilus_process_tick_batch (\<lambda>j. input_ticks (4 * k + j)) 1 x3)
                 [0..<count])"

text \<open>Two ticks: price 1, quantity 2, timestamp 3; price 5, quantity 6, timestamp 7.\<close>

definition two_ticks :: "nat \<Rightarrow> rat" where
  "two_ticks = (\<lambda>slot. 0)(0 := 1, 1 := 2, 2 := 3, 4 := 5, 5 := 6, 6 := 7)"


section \<open>Order book: \<^verbatim>\<open>nautilus_assembly/src/order_book.s\<close>\<close>

text \<open>
  The two structures the file declares. A level is 16 bytes, price then quantity. The
  book holds a pointer to each side's level array, the two counts, the two capacities,
  the instrument, the sequence number and a timestamp. An array is modelled by the
  function from the level index to the level stored at \<^verbatim>\<open>array + 16 * index\<close>; the
  routine addresses it with no bound, so the function is total, and an index at or
  beyond the capacity is the memory after the array. The two arrays and the book
  structure are taken not to overlap.
\<close>

record level =
  price_field :: u64
  quantity_field :: u64

record order_book =
  bids_array :: "nat \<Rightarrow> level"
  asks_array :: "nat \<Rightarrow> level"
  bid_count :: u32
  ask_count :: u32
  bid_capacity :: u32
  ask_capacity :: u32
  instrument_id :: u64
  sequence :: u64
  timestamp_ns :: u64

text \<open>
  \<^verbatim>\<open>binary_search\<close>: \<^verbatim>\<open>x11\<close> is left, \<^verbatim>\<open>x12\<close> is right, \<^verbatim>\<open>x13\<close> the middle,
  \<^verbatim>\<open>x15\<close> the price found there. An equal price ends the search at
  \<^verbatim>\<open>found_exact\<close>; otherwise bids (side 0) are searched in descending and asks in
  ascending order, prices compared as signed 64-bit values (\<^verbatim>\<open>b.gt\<close>, \<^verbatim>\<open>b.lt\<close>).
  When left meets right the search ends at \<^verbatim>\<open>not_found\<close> with the insert position
  in \<^verbatim>\<open>x11\<close>.
\<close>

datatype search_result = Found_exact nat | Not_found nat

function binary_search :: "(nat \<Rightarrow> level) \<Rightarrow> u64 \<Rightarrow> u64 \<Rightarrow> nat \<Rightarrow> nat \<Rightarrow> search_result" where
  "binary_search x9 x1 x2 x11 x12 =
     (if x12 \<le> x11 then Not_found x11
      else if x2 = price_field (x9 ((x11 + x12) div 2)) then Found_exact ((x11 + x12) div 2)
      else if x1 = 0 then
        (if sint (price_field (x9 ((x11 + x12) div 2))) < sint x2
         then binary_search x9 x1 x2 x11 ((x11 + x12) div 2)
         else binary_search x9 x1 x2 ((x11 + x12) div 2 + 1) x12)
      else
        (if sint x2 < sint (price_field (x9 ((x11 + x12) div 2)))
         then binary_search x9 x1 x2 x11 ((x11 + x12) div 2)
         else binary_search x9 x1 x2 ((x11 + x12) div 2 + 1) x12))"
  by pat_completeness auto
termination
  by (relation "measure (\<lambda>(x9, x1, x2, x11, x12). x12 - x11)") auto

declare binary_search.simps [simp del]

text \<open>
  \<^verbatim>\<open>shift_loop\<close> closes the gap of a deleted level: from \<^verbatim>\<open>x13 = found + 1\<close> while
  \<^verbatim>\<open>x13 < count\<close>, level \<^verbatim>\<open>x13\<close> is copied to \<^verbatim>\<open>x13 - 1\<close>.
\<close>

function shift_loop :: "(nat \<Rightarrow> level) \<Rightarrow> nat \<Rightarrow> nat \<Rightarrow> (nat \<Rightarrow> level)" where
  "shift_loop x9 x13 x10 =
     (if x10 \<le> x13 then x9
      else shift_loop (x9(x13 - 1 := x9 x13)) (x13 + 1) x10)"
  by pat_completeness auto
termination
  by (relation "measure (\<lambda>(x9, x13, x10). x10 - x13)") auto

declare shift_loop.simps [simp del]

text \<open>
  \<^verbatim>\<open>insert_shift_loop\<close> opens a gap at the insert position: from \<^verbatim>\<open>x13 = count\<close>
  while \<^verbatim>\<open>x13 > position\<close>, level \<^verbatim>\<open>x13 - 1\<close> is copied to \<^verbatim>\<open>x13\<close>.
\<close>

function insert_shift_loop :: "(nat \<Rightarrow> level) \<Rightarrow> nat \<Rightarrow> nat \<Rightarrow> (nat \<Rightarrow> level)" where
  "insert_shift_loop x9 x13 x11 =
     (if x13 \<le> x11 then x9
      else insert_shift_loop (x9(x13 := x9 (x13 - 1))) (x13 - 1) x11)"
  by pat_completeness auto
termination
  by (relation "measure (\<lambda>(x9, x13, x11). x13 - x11)") auto

declare insert_shift_loop.simps [simp del]

text \<open>
  \<^verbatim>\<open>update_counts\<close> and \<^verbatim>\<open>update_sequence\<close>: the count of the side worked on is
  stored back as a 32-bit word and the sequence number is incremented. The array was
  changed in place; the model puts it back into the book here. The flags are returned
  in \<^verbatim>\<open>x0\<close>: bit 0 is \<open>book_changed\<close>, bit 1 is \<open>top_changed\<close>.
\<close>

definition update_counts :: "order_book \<Rightarrow> u64 \<Rightarrow> (nat \<Rightarrow> level) \<Rightarrow> nat \<Rightarrow> u64 \<Rightarrow> order_book \<times> u64" where
  "update_counts b x1 x9 x10 x20 =
     (if x1 = 0
      then (b\<lparr>bids_array := x9, bid_count := of_nat x10, sequence := sequence b + 1\<rparr>, x20)
      else (b\<lparr>asks_array := x9, ask_count := of_nat x10, sequence := sequence b + 1\<rparr>, x20))"

text \<open>
  \<^verbatim>\<open>_nautilus_update_l2_level\<close> (\<^verbatim>\<open>x0=order_book*, x1=side, x2=price_raw,
  x3=qty_raw, x4=action\<close>).

  At \<^verbatim>\<open>found_exact\<close> the flags become 3 at index 0 and 1 elsewhere; action 1 deletes
  the level, any other action stores the quantity in place.

  At \<^verbatim>\<open>not_found\<close> a zero quantity leaves through \<^verbatim>\<open>skip_insert\<close> with the book
  untouched and the flags still 0; any other quantity is inserted at the position the
  search ended at, whatever the action and whatever the capacity (neither is read on
  this path), and the flags become 3 at index 0 and 1 elsewhere.
\<close>

definition nautilus_update_l2_level ::
  "order_book \<Rightarrow> u64 \<Rightarrow> u64 \<Rightarrow> u64 \<Rightarrow> u64 \<Rightarrow> order_book \<times> u64" where
  "nautilus_update_l2_level b x1 x2 x3 x4 =
     (let x9 = (if x1 = 0 then bids_array b else asks_array b);
          x10 = unat (if x1 = 0 then bid_count b else ask_count b)
      in case binary_search x9 x1 x2 0 x10 of
           Found_exact x19 \<Rightarrow>
             if x4 = 1
             then update_counts b x1 (shift_loop x9 (x19 + 1) x10) (x10 - 1)
                    (if x19 = 0 then 3 else 1)
             else update_counts b x1 (x9(x19 := (x9 x19)\<lparr>quantity_field := x3\<rparr>)) x10
                    (if x19 = 0 then 3 else 1)
         | Not_found x11 \<Rightarrow>
             if x3 = 0 then (b, 0)
             else update_counts b x1
                    ((insert_shift_loop x9 x10 x11)
                       (x11 := \<lparr>price_field = x2, quantity_field = x3\<rparr>))
                    (x10 + 1) (if x11 = 0 then 3 else 1))"

definition book_changed :: "u64 \<Rightarrow> bool" where
  "book_changed flags = bit flags 0"

definition top_changed :: "u64 \<Rightarrow> bool" where
  "top_changed flags = bit flags 1"

text \<open>
  \<^verbatim>\<open>_nautilus_get_best_bid_ask\<close> returns the price of the first level of each side, and
  0 for a side whose count is 0.
\<close>

definition nautilus_get_best_bid_ask :: "order_book \<Rightarrow> u64 \<times> u64" where
  "nautilus_get_best_bid_ask b =
     (if bid_count b = 0 then 0 else price_field (bids_array b 0),
      if ask_count b = 0 then 0 else price_field (asks_array b 0))"

text \<open>
  \<^verbatim>\<open>AssemblyOrderBookEngine.update_level\<close> scales price and quantity by \<open>10\<^sup>8\<close> before
  the call: the price 100.00 is 10000000000, the quantity 1 is 100000000.
\<close>

definition empty_book :: "u32 \<Rightarrow> order_book" where
  "empty_book capacity =
     \<lparr>bids_array = (\<lambda>i. \<lparr>price_field = 0, quantity_field = 0\<rparr>),
      asks_array = (\<lambda>i. \<lparr>price_field = 0, quantity_field = 0\<rparr>),
      bid_count = 0, ask_count = 0,
      bid_capacity = capacity, ask_capacity = capacity,
      instrument_id = 1, sequence = 0, timestamp_ns = 0\<rparr>"

definition full_bid_book :: order_book where
  "full_bid_book =
     fst (nautilus_update_l2_level (empty_book 1) 0 10000000000 100000000 0)"


section \<open>Properties of the risk engine\<close>

subsection \<open>The mask, bit by bit\<close>

lemma bit_or_exp:
  "bit ((acc::u64) OR 2 ^ n) b \<longleftrightarrow> bit acc b \<or> (b = n \<and> n < 64)"
  by (auto simp: bit_or_iff bit_exp_iff)

lemma exists_index_Cons:
  "(\<exists>i<length (a # os). (k + i) mod 64 = b \<and> P ((a # os) ! i)) \<longleftrightarrow>
     (k mod 64 = b \<and> P a) \<or> (\<exists>i<length os. (k + 1 + i) mod 64 = b \<and> P (os ! i))"
  (is "?L \<longleftrightarrow> ?R")
proof
  assume ?L
  then obtain i where i: "i < length (a # os)" "(k + i) mod 64 = b" "P ((a # os) ! i)"
    by blast
  show ?R
  proof (cases i)
    case 0
    with i show ?thesis by simp
  next
    case (Suc j)
    with i have "j < length os" "(k + 1 + j) mod 64 = b" "P (os ! j)" by simp_all
    then show ?thesis by blast
  qed
next
  assume ?R
  then show ?L
  proof
    assume "k mod 64 = b \<and> P a"
    then have "0 < length (a # os) \<and> (k + 0) mod 64 = b \<and> P ((a # os) ! 0)" by simp
    then show ?L by blast
  next
    assume "\<exists>i<length os. (k + 1 + i) mod 64 = b \<and> P (os ! i)"
    then obtain j where "j < length os" "(k + 1 + j) mod 64 = b" "P (os ! j)" by blast
    then have "Suc j < length (a # os) \<and> (k + Suc j) mod 64 = b \<and> P ((a # os) ! Suc j)"
      by simp
    then show ?L by blast
  qed
qed

lemma bit_validation_loop:
  "bit (validation_loop pos lmt os k acc) b \<longleftrightarrow>
     bit acc b \<or>
     (b < 64 \<and> (\<exists>i<length os. (k + i) mod 64 = b \<and> order_valid pos lmt (os ! i)))"
proof (induction os arbitrary: k acc)
  case Nil
  then show ?case by simp
next
  case (Cons a os)
  show ?case
    unfolding validation_loop.simps Cons.IH exists_index_Cons
    by (auto simp: bit_or_exp)
qed

lemma mask_bit_iff:
  "bit (snd (nautilus_validate_order_batch m)) b \<longleftrightarrow>
     b < 64 \<and> (\<exists>i<length (orders m). i mod 64 = b \<and>
                  order_valid (positions m) (limits m) (orders m ! i))"
  by (simp add: nautilus_validate_order_batch_def bit_validation_loop)

lemma mask_bit_small_batch:
  assumes "i < length (orders m)" and "length (orders m) \<le> 64"
  shows "bit (snd (nautilus_validate_order_batch m)) i \<longleftrightarrow>
           order_valid (positions m) (limits m) (orders m ! i)"
proof -
  have "\<And>j. j < length (orders m) \<Longrightarrow> j mod 64 = i \<Longrightarrow> j = i"
    using assms by simp
  with assms show ?thesis
    unfolding mask_bit_iff by (auto intro: exI [of _ i])
qed

lemma order_valid_iff:
  "order_valid pos lmt ord \<longleftrightarrow>
     sint (new_position pos ord) \<le> sint (max_position_size lmt) \<and>
     sint (- max_position_size lmt) \<le> sint (new_position pos ord) \<and>
     sint (min_price lmt) \<le> sint (price ord) \<and>
     sint (price ord) \<le> sint (max_price lmt)"
  by (auto simp: order_valid_def Let_def)

lemma sint_add_in_range:
  "- (2 ^ 31) \<le> sint (a::u32) + sint b \<Longrightarrow> sint a + sint b < 2 ^ 31 \<Longrightarrow>
     sint (a + b) = sint a + sint b"
  by (simp add: sint_word_ariths signed_take_bit_int_eq_self)

lemma sint_neg_in_range:
  "sint (a::u32) \<noteq> - (2 ^ 31) \<Longrightarrow> sint (- a) = - sint a"
  using sint_ge [of a] sint_lt [of a]
  by (simp add: sint_word_ariths signed_take_bit_int_eq_self)

subsection \<open>The list read back from the mask\<close>

lemma and_exp_eq_0_iff:
  "(k::int) AND 2 ^ i = 0 \<longleftrightarrow> \<not> bit k i"
  using bit_iff_and_push_bit_not_eq_0 [of k i] by simp

lemma validate_order_batch_eq:
  "validate_order_batch m =
     map (\<lambda>i. bit (snd (nautilus_validate_order_batch m)) i) [0..<length (orders m)]"
  by (auto simp: validate_order_batch_def mask_to_bools_def and_exp_eq_0_iff bit_uint_iff
      dest: bit_imp_le_length)

lemma length_validate_order_batch:
  "length (validate_order_batch m) = length (orders m)"
  by (simp add: validate_order_batch_eq)

lemma validate_order_batch_nth:
  "i < length (orders m) \<Longrightarrow>
     validate_order_batch m ! i \<longleftrightarrow>
       i < 64 \<and> (\<exists>j<length (orders m). j mod 64 = i \<and>
                   order_valid (positions m) (limits m) (orders m ! j))"
  by (simp add: validate_order_batch_eq mask_bit_iff)

lemma report_small_batch:
  assumes "length (orders m) \<le> 64"
  shows "validate_order_batch m = map (order_valid (positions m) (limits m)) (orders m)"
  using assms
  by (intro nth_equalityI)
    (simp_all add: validate_order_batch_eq mask_bit_small_batch)

lemma report_faithful_iff:
  "validate_order_batch m = map (order_valid (positions m) (limits m)) (orders m) \<longleftrightarrow>
     (\<forall>i<length (orders m). 64 \<le> i \<longrightarrow>
        \<not> order_valid (positions m) (limits m) (orders m ! i))"
  (is "?F \<longleftrightarrow> ?T")
proof
  assume f: ?F
  show ?T
  proof (intro allI impI)
    fix i assume i: "i < length (orders m)" "64 \<le> i"
    from f have "validate_order_batch m ! i =
        map (order_valid (positions m) (limits m)) (orders m) ! i"
      by simp
    with i show "\<not> order_valid (positions m) (limits m) (orders m ! i)"
      by (simp add: validate_order_batch_nth)
  qed
next
  assume t: ?T
  show ?F
  proof (intro nth_equalityI)
    show "length (validate_order_batch m) =
        length (map (order_valid (positions m) (limits m)) (orders m))"
      by (simp add: length_validate_order_batch)
  next
    fix i assume "i < length (validate_order_batch m)"
    then have i: "i < length (orders m)" by (simp add: length_validate_order_batch)
    show "validate_order_batch m ! i =
        map (order_valid (positions m) (limits m)) (orders m) ! i"
    proof (cases "i < 64")
      case True
      have "(\<exists>j<length (orders m). j mod 64 = i \<and>
                order_valid (positions m) (limits m) (orders m ! j))
          \<longleftrightarrow> order_valid (positions m) (limits m) (orders m ! i)"
      proof
        assume "\<exists>j<length (orders m). j mod 64 = i \<and>
            order_valid (positions m) (limits m) (orders m ! j)"
        then obtain j where j: "j < length (orders m)" "j mod 64 = i"
          "order_valid (positions m) (limits m) (orders m ! j)" by blast
        with t have "j < 64" by (meson not_le)
        with j show "order_valid (positions m) (limits m) (orders m ! i)" by simp
      next
        assume "order_valid (positions m) (limits m) (orders m ! i)"
        with i True show "\<exists>j<length (orders m). j mod 64 = i \<and>
            order_valid (positions m) (limits m) (orders m ! j)"
          by (intro exI [of _ i]) simp
      qed
      with i True show ?thesis by (simp add: validate_order_batch_nth)
    next
      case False
      with t i have "\<not> order_valid (positions m) (limits m) (orders m ! i)" by simp
      with i False show ?thesis by (simp add: validate_order_batch_nth)
    qed
  qed
qed

lemma valid_order_ok: "order_valid (\<lambda>s. 0) small_limits valid_order"
  by (simp add: order_valid_def new_position_def valid_order_def small_limits_def)

lemma invalid_order_not_ok: "\<not> order_valid (\<lambda>s. 0) small_limits invalid_order"
  by (simp add: order_valid_def new_position_def invalid_order_def small_limits_def)

subsection \<open>Inclusive bounds\<close>

text \<open>
  Claim C6, as the routine has it. The routine adds and compares 32-bit words and keeps
  one mask bit per order. For a batch of at most 64 orders, and an order whose new
  position \<open>positions[symbol] + quantity\<close> fits in a signed 32-bit word (with a
  \<open>max_position_size\<close> other than the least 32-bit value, whose negation wraps), bit
  \<open>i\<close> of the mask is set if and only if
  \<open>-max_position_size \<le> new_position \<le> max_position_size\<close> and
  \<open>min_price \<le> price \<le> max_price\<close>, all four bounds inclusive.
\<close>

theorem C6_inclusive_bounds:
  assumes "i < length (orders m)" and "length (orders m) \<le> 64"
    and "- (2 ^ 31) \<le> sint (positions m (symbol_id (orders m ! i)))
           + sint (quantity (orders m ! i))"
    and "sint (positions m (symbol_id (orders m ! i)))
           + sint (quantity (orders m ! i)) < 2 ^ 31"
    and "sint (max_position_size (limits m)) \<noteq> - (2 ^ 31)"
  shows "bit (snd (nautilus_validate_order_batch m)) i \<longleftrightarrow>
     - sint (max_position_size (limits m))
        \<le> sint (positions m (symbol_id (orders m ! i))) + sint (quantity (orders m ! i)) \<and>
     sint (positions m (symbol_id (orders m ! i))) + sint (quantity (orders m ! i))
        \<le> sint (max_position_size (limits m)) \<and>
     sint (min_price (limits m)) \<le> sint (price (orders m ! i)) \<and>
     sint (price (orders m ! i)) \<le> sint (max_price (limits m))"
proof -
  have np: "sint (new_position (positions m) (orders m ! i)) =
      sint (positions m (symbol_id (orders m ! i))) + sint (quantity (orders m ! i))"
    unfolding new_position_def using assms(3,4) by (rule sint_add_in_range)
  have ng: "sint (- max_position_size (limits m)) = - sint (max_position_size (limits m))"
    using assms(5) by (rule sint_neg_in_range)
  show ?thesis
    unfolding mask_bit_small_batch [OF assms(1,2)] order_valid_iff np ng by auto
qed

text \<open>
  The boundary itself: with a position of 500 and a limit of 1000, an order for 500
  (new position 1000) is valid and an order for 501 (new position 1001) is not.
\<close>

theorem C6_inclusive_bounds_witness:
  "length (orders boundary_batch) = 2 \<and>
   bit (snd (nautilus_validate_order_batch boundary_batch)) 0 \<and>
   \<not> bit (snd (nautilus_validate_order_batch boundary_batch)) 1"
  using C6_inclusive_bounds [of 0 boundary_batch] C6_inclusive_bounds [of 1 boundary_batch]
  by (simp add: boundary_batch_def)

text \<open>
  Where the sum does not fit, the routine decides on the wrapped value: a position of
  2147483647 and a quantity of 2147483647 add up to 4294967294, far above the limit 5,
  and the 32-bit sum is \<open>-2\<close>, which the routine accepts.
\<close>

theorem C6_overflow_counterexample:
  "bit (snd (nautilus_validate_order_batch overflow_batch)) 0 \<and>
   sint (positions overflow_batch (symbol_id (orders overflow_batch ! 0)))
     + sint (quantity (orders overflow_batch ! 0)) = 4294967294 \<and>
   sint (max_position_size (limits overflow_batch)) = 5 \<and>
   \<not> sint (positions overflow_batch (symbol_id (orders overflow_batch ! 0)))
       + sint (quantity (orders overflow_batch ! 0))
       \<le> sint (max_position_size (limits overflow_batch))"
  by (simp add: overflow_batch_def nautilus_validate_order_batch_def order_valid_def
      new_position_def)

subsection \<open>One snapshot for the whole batch\<close>

text \<open>
  Claim C7. The routine hands back the buffers as it found them (it has no store
  instruction, so the positions are never written), and every bit of the mask is
  decided from the snapshot the call was given: bit \<open>b\<close> is set exactly when some order
  \<open>i\<close> with \<open>i mod 64 = b\<close> passes the position check on
  \<open>positions[symbol_i] + quantity_i\<close>, a sum that holds no other order's quantity,
  and passes the price check.
\<close>

theorem C7_snapshot_read_only:
  "fst (nautilus_validate_order_batch m) = m \<and>
   (\<forall>b. bit (snd (nautilus_validate_order_batch m)) b \<longleftrightarrow>
      b < 64 \<and> (\<exists>i<length (orders m). i mod 64 = b \<and>
        sint (positions m (symbol_id (orders m ! i)) + quantity (orders m ! i))
          \<le> sint (max_position_size (limits m)) \<and>
        sint (- max_position_size (limits m))
          \<le> sint (positions m (symbol_id (orders m ! i)) + quantity (orders m ! i)) \<and>
        sint (min_price (limits m)) \<le> sint (price (orders m ! i)) \<and>
        sint (price (orders m ! i)) \<le> sint (max_price (limits m))))"
  by (simp add: mask_bit_iff order_valid_iff new_position_def)
    (simp add: nautilus_validate_order_batch_def)

text \<open>
  Two orders for 400 on the same symbol, with a position of 500 and a limit of 1000:
  both are accepted (mask 3), each against 500 + 400, although together they would
  reach 1300.
\<close>

theorem C7_snapshot_read_only_witness:
  "fst (nautilus_validate_order_batch same_symbol_batch) = same_symbol_batch \<and>
   snd (nautilus_validate_order_batch same_symbol_batch) = 3"
proof -
  have "snd (nautilus_validate_order_batch same_symbol_batch) = 3"
    by (simp add: same_symbol_batch_def nautilus_validate_order_batch_def order_valid_def
      new_position_def)
  with C7_snapshot_read_only [of same_symbol_batch] show ?thesis by simp
qed

subsection \<open>Batches longer than the mask\<close>

text \<open>
  Claim C10, as the code has it. Bit \<open>b\<close> of the mask collects every order \<open>j\<close> with
  \<open>j mod 64 = b\<close>; the list read back from the mask gives that bit at each index below
  64 and \<open>False\<close> at every index from 64 on (Python's \<open>1 << i\<close> does not wrap). So a
  batch of at most 64 orders is reported faithfully, and a longer batch is reported
  faithfully exactly when none of its orders from index 64 on is valid.
\<close>

theorem C10_mask_report:
  "validate_order_batch m =
     map (\<lambda>i. i < 64 \<and> (\<exists>j<length (orders m). j mod 64 = i \<and>
                order_valid (positions m) (limits m) (orders m ! j)))
       [0..<length (orders m)] \<and>
   (length (orders m) \<le> 64 \<longrightarrow>
      validate_order_batch m = map (order_valid (positions m) (limits m)) (orders m)) \<and>
   (validate_order_batch m = map (order_valid (positions m) (limits m)) (orders m) \<longleftrightarrow>
      (\<forall>i<length (orders m). 64 \<le> i \<longrightarrow>
         \<not> order_valid (positions m) (limits m) (orders m ! i)))"
proof (intro conjI impI)
  show "validate_order_batch m =
     map (\<lambda>i. i < 64 \<and> (\<exists>j<length (orders m). j mod 64 = i \<and>
                order_valid (positions m) (limits m) (orders m ! j)))
       [0..<length (orders m)]"
    by (simp add: validate_order_batch_eq mask_bit_iff)
  show "validate_order_batch m = map (order_valid (positions m) (limits m)) (orders m)"
    if "length (orders m) \<le> 64"
    using that by (rule report_small_batch)
  show "validate_order_batch m = map (order_valid (positions m) (limits m)) (orders m) \<longleftrightarrow>
      (\<forall>i<length (orders m). 64 \<le> i \<longrightarrow>
         \<not> order_valid (positions m) (limits m) (orders m ! i))"
    by (rule report_faithful_iff)
qed

text \<open>
  A batch of two is read back as it was decided; a batch of 64 invalid orders followed
  by a valid one is not.
\<close>

theorem C10_mask_report_witness:
  "validate_order_batch (batch_of [valid_order, invalid_order]) = [True, False] \<and>
   validate_order_batch (batch_of (replicate 64 invalid_order @ [valid_order]))
     \<noteq> map (order_valid (\<lambda>s. 0) small_limits) (replicate 64 invalid_order @ [valid_order])"
proof -
  have "validate_order_batch (batch_of [valid_order, invalid_order]) = [True, False]"
    using C10_mask_report [of "batch_of [valid_order, invalid_order]",
        THEN conjunct2, THEN conjunct1]
    by (simp add: batch_of_def valid_order_ok invalid_order_not_ok)
  moreover have "validate_order_batch (batch_of (replicate 64 invalid_order @ [valid_order]))
     \<noteq> map (order_valid (\<lambda>s. 0) small_limits) (replicate 64 invalid_order @ [valid_order])"
  proof -
    have "\<not> (\<forall>i<length (replicate 64 invalid_order @ [valid_order]). 64 \<le> i \<longrightarrow>
        \<not> order_valid (\<lambda>s. 0) small_limits
          ((replicate 64 invalid_order @ [valid_order]) ! i))"
      by (simp add: nth_append valid_order_ok) (rule exI [of _ 64], simp)
    with C10_mask_report [of "batch_of (replicate 64 invalid_order @ [valid_order])",
        THEN conjunct2, THEN conjunct2]
    show ?thesis by (simp add: batch_of_def)
  qed
  ultimately show ?thesis by simp
qed

text \<open>
  A batch of 65 orders, the first 64 valid and the last one invalid, is reported
  faithfully; bit 0 of its mask is set, and the entry read back for order 64 is
  \<open>False\<close>, not that bit.
\<close>

theorem C10_faithful_long_batch_counterexample:
  "length (orders (batch_of (replicate 64 valid_order @ [invalid_order]))) = 65 \<and>
   validate_order_batch (batch_of (replicate 64 valid_order @ [invalid_order]))
     = map (order_valid (\<lambda>s. 0) small_limits) (replicate 64 valid_order @ [invalid_order]) \<and>
   bit (snd (nautilus_validate_order_batch
              (batch_of (replicate 64 valid_order @ [invalid_order])))) 0 \<and>
   \<not> validate_order_batch (batch_of (replicate 64 valid_order @ [invalid_order])) ! 64"
proof -
  let ?os = "replicate 64 valid_order @ [invalid_order]"
  have len: "length (orders (batch_of ?os)) = 65"
    by (simp add: batch_of_def)
  have tail: "\<forall>i<length (orders (batch_of ?os)). 64 \<le> i \<longrightarrow>
      \<not> order_valid (positions (batch_of ?os)) (limits (batch_of ?os)) (orders (batch_of ?os) ! i)"
  proof (intro allI impI)
    fix i assume "i < length (orders (batch_of ?os))" "64 \<le> i"
    with len have "i = 64" by simp
    then show "\<not> order_valid (positions (batch_of ?os)) (limits (batch_of ?os))
        (orders (batch_of ?os) ! i)"
      by (simp add: batch_of_def nth_append invalid_order_not_ok)
  qed
  have faithful: "validate_order_batch (batch_of ?os)
      = map (order_valid (\<lambda>s. 0) small_limits) ?os"
    using tail unfolding report_faithful_iff [symmetric] by (simp add: batch_of_def)
  have bit0: "bit (snd (nautilus_validate_order_batch (batch_of ?os))) 0"
    unfolding mask_bit_iff
    by (simp add: batch_of_def) (rule exI [of _ 0], simp add: nth_append valid_order_ok)
  have last: "\<not> validate_order_batch (batch_of ?os) ! 64"
    using validate_order_batch_nth [of 64 "batch_of ?os"] len by simp
  from len faithful bit0 last show ?thesis by blast
qed


subsection \<open>Portfolio variance\<close>

text \<open>
  Both loops run their counter from 0 to \<open>count\<close>, so the accumulator ends as the
  double sum, taken over the values the routine loads: for index \<open>i\<close> the weight and the
  volatility in slot \<open>2 * i\<close> of their buffers, for the pair \<open>i, j\<close> the correlation in
  slot \<open>i * count + j\<close>.
\<close>

lemma inner_variance_loop_sum:
  "x6 \<le> x19 \<Longrightarrow>
   inner_variance_loop pos_buf cor_buf vol_buf x19 x4 x6 s16 =
     s16 + (\<Sum>j\<leftarrow>[x6..<x19].
              pos_buf (2 * x4) * pos_buf (2 * j) * vol_buf (2 * x4) * vol_buf (2 * j)
                * cor_buf (x4 * x19 + j))"
proof (induction pos_buf cor_buf vol_buf x19 x4 x6 s16 rule: inner_variance_loop.induct)
  case (1 pos_buf cor_buf vol_buf x19 x4 x6 s16)
  show ?case
  proof (cases "x19 \<le> x6")
    case True
    then show ?thesis by (subst inner_variance_loop.simps) simp
  next
    case False
    then have lt: "x6 < x19" by simp
    have "inner_variance_loop pos_buf cor_buf vol_buf x19 x4 x6 s16 =
        inner_variance_loop pos_buf cor_buf vol_buf x19 x4 (x6 + 1)
          (s16 + (pos_buf (2 * x4) * pos_buf (2 * x6))
                   * ((vol_buf (2 * x4) * vol_buf (2 * x6)) * cor_buf (x4 * x19 + x6)))"
      using False by (subst inner_variance_loop.simps) simp
    also have "\<dots> =
        s16 + (pos_buf (2 * x4) * pos_buf (2 * x6))
                * ((vol_buf (2 * x4) * vol_buf (2 * x6)) * cor_buf (x4 * x19 + x6))
          + (\<Sum>j\<leftarrow>[x6 + 1..<x19].
              pos_buf (2 * x4) * pos_buf (2 * j) * vol_buf (2 * x4) * vol_buf (2 * j)
                * cor_buf (x4 * x19 + j))"
      using "1.IH" [OF False] lt by simp
    also have "\<dots> =
        s16 + (\<Sum>j\<leftarrow>[x6..<x19].
              pos_buf (2 * x4) * pos_buf (2 * j) * vol_buf (2 * x4) * vol_buf (2 * j)
                * cor_buf (x4 * x19 + j))"
      using lt by (simp add: upt_conv_Cons [of x6 x19] algebra_simps)
    finally show ?thesis .
  qed
qed

lemma outer_variance_loop_sum:
  "x4 \<le> x19 \<Longrightarrow>
   outer_variance_loop pos_buf cor_buf vol_buf x19 x4 s16 =
     s16 + (\<Sum>i\<leftarrow>[x4..<x19]. \<Sum>j\<leftarrow>[0..<x19].
              pos_buf (2 * i) * pos_buf (2 * j) * vol_buf (2 * i) * vol_buf (2 * j)
                * cor_buf (i * x19 + j))"
proof (induction pos_buf cor_buf vol_buf x19 x4 s16 rule: outer_variance_loop.induct)
  case (1 pos_buf cor_buf vol_buf x19 x4 s16)
  show ?case
  proof (cases "x19 \<le> x4")
    case True
    then show ?thesis by (subst outer_variance_loop.simps) simp
  next
    case False
    then have lt: "x4 < x19" by simp
    have "outer_variance_loop pos_buf cor_buf vol_buf x19 x4 s16 =
        outer_variance_loop pos_buf cor_buf vol_buf x19 (x4 + 1)
          (inner_variance_loop pos_buf cor_buf vol_buf x19 x4 0 s16)"
      using False by (subst outer_variance_loop.simps) simp
    also have "\<dots> =
        s16 + (\<Sum>j\<leftarrow>[0..<x19].
              pos_buf (2 * x4) * pos_buf (2 * j) * vol_buf (2 * x4) * vol_buf (2 * j)
                * cor_buf (x4 * x19 + j))
          + (\<Sum>i\<leftarrow>[x4 + 1..<x19]. \<Sum>j\<leftarrow>[0..<x19].
              pos_buf (2 * i) * pos_buf (2 * j) * vol_buf (2 * i) * vol_buf (2 * j)
                * cor_buf (i * x19 + j))"
      using "1.IH" [OF False] lt by (simp add: inner_variance_loop_sum)
    also have "\<dots> =
        s16 + (\<Sum>i\<leftarrow>[x4..<x19]. \<Sum>j\<leftarrow>[0..<x19].
              pos_buf (2 * i) * pos_buf (2 * j) * vol_buf (2 * i) * vol_buf (2 * j)
                * cor_buf (i * x19 + j))"
      using lt by (simp add: upt_conv_Cons [of x4 x19])
    finally show ?thesis .
  qed
qed

lemma accumulated_variance:
  "outer_variance_loop pos_buf cor_buf vol_buf count 0 0 =
     portfolio_variance (\<lambda>i. pos_buf (2 * i)) (\<lambda>i. vol_buf (2 * i))
       (\<lambda>i j. cor_buf (i * count + j)) count"
  by (simp add: outer_variance_loop_sum portfolio_variance_def)

text \<open>
  Nothing clamps the accumulator: of a negative sum the square root is NaN.
\<close>

lemma root_of_negative_variance:
  "portfolio_variance (\<lambda>i. pos_buf (2 * i)) (\<lambda>i. vol_buf (2 * i))
     (\<lambda>i j. cor_buf (i * count + j)) count < 0 \<Longrightarrow>
   fsqrt (outer_variance_loop pos_buf cor_buf vol_buf count 0 0) = None"
  by (simp add: accumulated_variance fsqrt_def)



text \<open>
  The weights and the volatilities are loaded at a stride of 8 bytes, the correlations
  at a stride of 4. On two contiguous single-precision weights 1 and 3 (volatilities 1,
  identity correlations) the routine accumulates from the slots 0 and 2, the first
  weight and the memory after the second: 1, where the two weights give 10.
\<close>

lemma stride_on_contiguous_floats:
  "outer_variance_loop contiguous_weights identity_correlations all_ones 2 0 0 = 1 \<and>
   portfolio_variance contiguous_weights all_ones
     (\<lambda>i j. identity_correlations (i * 2 + j)) 2 = 10"
  by (simp add: accumulated_variance portfolio_variance_def contiguous_weights_def
      identity_correlations_def all_ones_def upt_rec)





section \<open>Properties of the signal engine\<close>

subsection \<open>The vector loop against the scalar recurrence\<close>

text \<open>
  The scalar loop of the routine is the element-at-a-time recurrence, so the routine
  agrees with it as long as the vector loop does not run, that is for up to four
  prices. From five prices on the first batch is computed from the first price alone.
\<close>

lemma ema_scalar_loop_eq:
  "ema_scalar_loop alpha (length ps) s18 ps out = out @ ema_batch_loop alpha s18 ps"
  by (induction ps arbitrary: s18 out) (simp_all add: fast_ema_update_def mult.commute)

lemma ema_vectorized_short:
  assumes "prices \<noteq> []" and "length prices \<le> 4"
  shows "nautilus_calculate_ema_vectorized alpha prices = ema_batch prices alpha"
proof -
  from assms(1) obtain p rest where p: "prices = p # rest" by (cases prices) simp_all
  with assms(2) have "length rest div 4 = 0" "length rest mod 4 = length rest" by simp_all
  with p show ?thesis
    by (simp add: nautilus_calculate_ema_vectorized_def ema_batch_def ema_scalar_loop_eq)
qed

lemma ema_vector_loop_prefix:
  "\<exists>sfx. snd (snd (ema_vector_loop alpha x5 s18 ps out)) = out @ sfx"
proof (induction x5 arbitrary: s18 ps out)
  case 0
  then show ?case by simp
next
  case (Suc x5)
  obtain sfx where
    "snd (snd (ema_vector_loop alpha x5
        (map (\<lambda>p. alpha * p + (1 - alpha) * s18) (take 4 ps) ! 3) (drop 4 ps)
        (out @ map (\<lambda>p. alpha * p + (1 - alpha) * s18) (take 4 ps)))) =
      (out @ map (\<lambda>p. alpha * p + (1 - alpha) * s18) (take 4 ps)) @ sfx"
    using Suc.IH by blast
  then show ?case by (simp add: Let_def)
qed

lemma ema_scalar_loop_prefix:
  "\<exists>sfx. ema_scalar_loop alpha x4 s18 ps out = out @ sfx"
proof (induction alpha x4 s18 ps out rule: ema_scalar_loop.induct)
  case (3 alpha x4 s18 s0 ps out)
  then obtain sfx where
    "ema_scalar_loop alpha x4 (alpha * s0 + (1 - alpha) * s18) ps
       (out @ [alpha * s0 + (1 - alpha) * s18]) = (out @ [alpha * s0 + (1 - alpha) * s18]) @ sfx"
    by blast
  then show ?case by simp
qed simp_all

lemma ema_vectorized_first_batch:
  assumes "5 \<le> length prices"
  shows "\<exists>out. nautilus_calculate_ema_vectorized alpha prices = Some out \<and>
     take 5 out = hd prices # map (\<lambda>p. alpha * p + (1 - alpha) * hd prices) (take 4 (tl prices))"
proof -
  from assms obtain p0 rest where p: "prices = p0 # rest" by (cases prices) simp_all
  with assms have len: "4 \<le> length rest" by simp
  then obtain x5 where x5: "length rest div 4 = Suc x5"
    by (cases "length rest div 4") simp_all
  define v4 where "v4 = map (\<lambda>p. alpha * p + (1 - alpha) * p0) (take 4 rest)"
  have lv4: "length v4 = 4" using len by (simp add: v4_def)
  obtain s ps out1 where loop:
    "ema_vector_loop alpha x5 (v4 ! 3) (drop 4 rest) ([p0] @ v4) = (s, ps, out1)"
    by (cases "ema_vector_loop alpha x5 (v4 ! 3) (drop 4 rest) ([p0] @ v4)") auto
  obtain sfx1 where sfx1: "out1 = ([p0] @ v4) @ sfx1"
    using ema_vector_loop_prefix [of alpha x5 "v4 ! 3" "drop 4 rest" "[p0] @ v4"] loop
    by auto
  obtain sfx2 where sfx2:
    "ema_scalar_loop alpha (length rest mod 4) s ps out1 = out1 @ sfx2"
    using ema_scalar_loop_prefix by blast
  have "nautilus_calculate_ema_vectorized alpha prices = Some (([p0] @ v4) @ sfx1 @ sfx2)"
    using loop sfx1 sfx2
    by (simp add: nautilus_calculate_ema_vectorized_def p x5 Let_def v4_def [symmetric])
  moreover have "take 5 (([p0] @ v4) @ sfx1 @ sfx2) = p0 # v4"
    using lv4 by simp
  ultimately show ?thesis
    by (simp add: p v4_def)
qed

text \<open>
  Claim C1 says that the four-lane evaluation gives the output of the scalar recurrence
  \<open>new_ema = alpha * price + (1 - alpha) * prev_ema\<close>, the running value carried from
  lane to lane. The routine gives every lane of a batch the value from before the
  batch. With \<open>alpha = 1/2\<close> and the prices 10, 20, 30, 40, 50 (one full batch after the
  first price) it stores 10, 15, 20, 25, 30; the element-at-a-time evaluation gives
  10, 15, 22.5, 31.25, 40.625.
\<close>

theorem C1_lanes_share_previous_value:
  "nautilus_calculate_ema_vectorized (1 / 2) [10, 20, 30, 40, 50] = Some [10, 15, 20, 25, 30] \<and>
   ema_batch [10, 20, 30, 40, 50] (1 / 2) = Some [10, 15, 45 / 2, 125 / 4, 325 / 8]"
  by (simp add: nautilus_calculate_ema_vectorized_def ema_batch_def fast_ema_update_def)

subsection \<open>The seed window and the first smoothing step\<close>

text \<open>
  The first loop sums the gains and the losses of the changes at the indices 1 to
  \<open>period\<close>; the second loop smooths from the change at index \<open>period\<close> on. For every
  valid call the output is therefore the untouched first \<open>period\<close> entries followed by
  Wilder's smoothing run over the changes from number \<open>period\<close> on, the last change of
  the seed window included.
\<close>

lemma length_price_changes: "length (price_changes prices) = length prices - 1"
  by (simp add: price_changes_def)

lemma price_changes_nth:
  "Suc k < length prices \<Longrightarrow> price_changes prices ! k = prices ! Suc k - prices ! k"
proof -
  assume "Suc k < length prices"
  then have "k < length prices - 1" by simp
  then show ?thesis
    unfolding price_changes_def by (simp only: nth_map length_upt nth_upt) simp
qed

lemma initial_period_loop_sum:
  "x20 \<le> Suc x19 \<Longrightarrow>
   initial_period_loop prices x19 x20 s20 s21 =
     (s20 + (\<Sum>k = x20..<Suc x19. max (prices ! k - prices ! (k - 1)) 0),
      s21 + (\<Sum>k = x20..<Suc x19. max (- (prices ! k - prices ! (k - 1))) 0))"
proof (induction prices x19 x20 s20 s21 rule: initial_period_loop.induct)
  case (1 prices x19 x20 s20 s21)
  show ?case
  proof (cases "x19 < x20")
    case True
    with "1.prems" have "x20 = Suc x19" by simp
    then show ?thesis by (simp add: initial_period_loop.simps)
  next
    case False
    then have le: "x20 < Suc x19" by simp
    have head: "(\<Sum>k = x20..<Suc x19. f k) = f x20 + (\<Sum>k = Suc x20..<Suc x19. f k)"
      for f :: "nat \<Rightarrow> rat"
      using le by (rule sum.atLeast_Suc_lessThan)
    show ?thesis
    proof (cases "prices ! x20 - prices ! (x20 - 1) < 0")
      case True
      have "initial_period_loop prices x19 x20 s20 s21 =
          initial_period_loop prices x19 (x20 + 1) s20
            (s21 + - (prices ! x20 - prices ! (x20 - 1)))"
        using False True by (subst initial_period_loop.simps) simp
      also have "\<dots> =
          (s20 + (\<Sum>k = Suc x20..<Suc x19. max (prices ! k - prices ! (k - 1)) 0),
           s21 + - (prices ! x20 - prices ! (x20 - 1))
             + (\<Sum>k = Suc x20..<Suc x19. max (- (prices ! k - prices ! (k - 1))) 0))"
        using "1.IH"(1) [OF False True] le by simp
      also have "\<dots> =
          (s20 + (\<Sum>k = x20..<Suc x19. max (prices ! k - prices ! (k - 1)) 0),
           s21 + (\<Sum>k = x20..<Suc x19. max (- (prices ! k - prices ! (k - 1))) 0))"
        using True unfolding head by (simp add: max_def)
      finally show ?thesis .
    next
      case nonneg: False
      have "initial_period_loop prices x19 x20 s20 s21 =
          initial_period_loop prices x19 (x20 + 1)
            (s20 + (prices ! x20 - prices ! (x20 - 1))) s21"
        using False nonneg by (subst initial_period_loop.simps) simp
      also have "\<dots> =
          (s20 + (prices ! x20 - prices ! (x20 - 1))
             + (\<Sum>k = Suc x20..<Suc x19. max (prices ! k - prices ! (k - 1)) 0),
           s21 + (\<Sum>k = Suc x20..<Suc x19. max (- (prices ! k - prices ! (k - 1))) 0))"
        using "1.IH"(2) [OF False nonneg] le by simp
      also have "\<dots> =
          (s20 + (\<Sum>k = x20..<Suc x19. max (prices ! k - prices ! (k - 1)) 0),
           s21 + (\<Sum>k = x20..<Suc x19. max (- (prices ! k - prices ! (k - 1))) 0))"
        using nonneg unfolding head by (simp add: max_def)
      finally show ?thesis .
    qed
  qed
qed

lemma rsi_calculation_loop_eq:
  "1 \<le> x20 \<Longrightarrow> x20 \<le> length prices \<Longrightarrow> length out = length prices \<Longrightarrow> x2 = length prices \<Longrightarrow>
   rsi_calculation_loop prices x2 x19 x20 s20 s21 out =
     take x20 out @ wilder_smoothing x19 s20 s21 (drop (x20 - 1) (price_changes prices))"
proof (induction prices x2 x19 x20 s20 s21 out rule: rsi_calculation_loop.induct)
  case (1 prices x2 x19 x20 s20 s21 out)
  show ?case
  proof (cases "x2 \<le> x20")
    case True
    with "1.prems" have "x20 = length prices" by simp
    with "1.prems" show ?thesis
      by (subst rsi_calculation_loop.simps) (simp add: length_price_changes)
  next
    case False
    with "1.prems" have lt: "x20 < length prices" by simp
    from "1.prems"(1) obtain k where k: "x20 = Suc k" by (cases x20) simp_all
    define s2 where "s2 = prices ! x20 - prices ! (x20 - 1)"
    have ch: "price_changes prices ! k = s2"
      using lt k by (simp add: price_changes_nth s2_def)
    have "k < length (price_changes prices)"
      using lt k by (simp add: length_price_changes)
    then have drop_eq: "drop (x20 - 1) (price_changes prices) = s2 # drop x20 (price_changes prices)"
      using Cons_nth_drop_Suc [of k "price_changes prices"] ch k by simp
    define g where "g = (of_nat (x19 - 1) * s20 + max s2 0) / of_nat x19"
    define l where "l = (of_nat (x19 - 1) * s21 + max (- s2) 0) / of_nat x19"
    have s3: "(if s2 < 0 then 0 else s2) = max s2 0" by (simp add: max_def)
    have s4: "(if s2 < 0 then - s2 else 0) = max (- s2) 0" by (simp add: max_def)
    have step: "rsi_calculation_loop prices x2 x19 x20 s20 s21 out =
        rsi_calculation_loop prices x2 x19 (x20 + 1) g l (out[x20 := rsi_value g l])"
      using False
      by (subst rsi_calculation_loop.simps)
        (auto simp: Let_def s2_def g_def l_def max_def)
    have tk: "take (x20 + 1) (out[x20 := rsi_value g l]) = take x20 out @ [rsi_value g l]"
      using lt "1.prems"(3) by (simp add: take_Suc_conv_app_nth)
    have "rsi_calculation_loop prices x2 x19 (x20 + 1) g l (out[x20 := rsi_value g l]) =
        take (x20 + 1) (out[x20 := rsi_value g l])
          @ wilder_smoothing x19 g l (drop (x20 + 1 - 1) (price_changes prices))"
      using "1.IH" [OF False refl refl refl refl refl] lt "1.prems"
      unfolding s2_def [symmetric] s3 s4 g_def [symmetric] l_def [symmetric]
      by simp
    then show ?thesis
      unfolding step tk drop_eq by (simp add: g_def l_def)
  qed
qed

lemma sum_list_take_changes:
  "P < length prices \<Longrightarrow>
   sum_list (map f (take P (price_changes prices))) =
     (\<Sum>k = 1..<Suc P. f (prices ! k - prices ! (k - 1)))"
proof -
  assume P: "P < length prices"
  have "sum_list (map f (take P (price_changes prices))) =
      (\<Sum>i = 0..<P. f (price_changes prices ! i))"
    using P by (simp add: sum_list_sum_nth length_price_changes atLeast0LessThan)
  also have "\<dots> = (\<Sum>i = 0..<P. f (prices ! Suc i - prices ! i))"
    using P by (intro sum.cong refl) (simp add: price_changes_nth)
  also have "\<dots> = (\<Sum>k = 1..<Suc P. f (prices ! k - prices ! (k - 1)))"
    using sum.shift_bounds_Suc_ivl [of "\<lambda>k. f (prices ! k - prices ! (k - 1))" 0 P]
    by simp
  finally show ?thesis .
qed

lemma calculate_rsi_eq:
  assumes "1 \<le> P" and "P < length prices"
  shows "calculate_rsi prices P =
     Some (replicate P 0 @
       wilder_smoothing P
         (sum_list (map (\<lambda>c. max c 0) (take P (price_changes prices))) / of_nat P)
         (sum_list (map (\<lambda>c. max (- c) 0) (take P (price_changes prices))) / of_nat P)
         (drop (P - 1) (price_changes prices)))"
proof -
  have init: "initial_period_loop prices P (Suc 0) 0 0 =
      (sum_list (map (\<lambda>c. max c 0) (take P (price_changes prices))),
       sum_list (map (\<lambda>c. max (- c) 0) (take P (price_changes prices))))"
    using assms by (simp add: initial_period_loop_sum sum_list_take_changes)
  have tk: "take P (replicate (length prices) (0::rat)) = replicate P 0"
    using assms by simp
  show ?thesis
    using assms
    by (simp add: calculate_rsi_def nautilus_calculate_rsi_vectorized_def init
        rsi_calculation_loop_eq tk)
qed

text \<open>
  Claim C5 says that the averages are seeded from the first \<open>P\<close> changes and that each
  later change enters once. The second loop of the routine starts at index \<open>P\<close>, not
  \<open>P + 1\<close>, so the change at index \<open>P\<close> is counted in the seed and again in the first
  smoothing step. For \<open>period = 2\<close> and the prices 1, 2, 1, 2, 1 the routine's
  arithmetic gives 25, 62.5 and 31.25 at the positions 2, 3 and 4; Wilder's method gives
  50, 75 and 37.5. The values 25 and 31.25 are exact in single precision. The value at
  position 3 passes through the quotient 5/3 and is rounded by the routine to
  62.499996; the statement below gives it unrounded.
\<close>

theorem C5_change_at_period_counted_twice:
  "calculate_rsi [1, 2, 1, 2, 1] 2 = Some [0, 0, 25, 125 / 2, 125 / 4] \<and>
   wilder_rsi_reference 2 [1, 2, 1, 2, 1] = [None, None, Some 50, Some 75, Some (75 / 2)]"
proof -
  have "calculate_rsi [1, 2, 1, 2, 1] 2 = Some [0, 0, 25, 125 / 2, 125 / 4]"
    by (simp add: calculate_rsi_def nautilus_calculate_rsi_vectorized_def rsi_value_def
        initial_period_loop.simps rsi_calculation_loop.simps eval_nat_numeral)
  moreover have "wilder_rsi_reference 2 [1, 2, 1, 2, 1] =
      [None, None, Some 50, Some 75, Some (75 / 2)]"
    by (simp add: wilder_rsi_reference_def price_changes_def rsi_value_def eval_nat_numeral
        upt_rec)
  ultimately show ?thesis by simp
qed


section \<open>Properties of tick processing\<close>

text \<open>
  The layout of the output in general: the vector path stores, for each pair of ticks,
  the instrument id twice, the two prices (slots 0 and 4 of the pair) and the two
  values at slots 2 and 6; one call per tick stores id, slot 0 and slot 1 of each
  record.
\<close>

lemma tick_vector_loop_eq:
  "tick_vector_loop inp x3 x5 x0 out =
     (x0 + 8 * x5,
      out @ concat (map (\<lambda>k. [x3, x3, scale_1e8 (inp (x0 + 8 * k)), scale_1e8 (inp (x0 + 8 * k + 4)),
                                scale_1e8 (inp (x0 + 8 * k + 2)), scale_1e8 (inp (x0 + 8 * k + 6))])
                        [0..<x5]))"
proof (induction x5 arbitrary: x0 out)
  case 0
  then show ?case by simp
next
  case (Suc x5)
  have shift: "[0..<Suc x5] = 0 # map Suc [0..<x5]"
    by (simp add: upt_conv_Cons map_Suc_upt del: upt_Suc)
  show ?case
    unfolding shift
    by (simp add: Suc.IH Let_def comp_def add.assoc del: upt_Suc)
qed

lemma process_tick_batch_even:
  "nautilus_process_tick_batch inp (2 * n) x3 =
     concat (map (\<lambda>k. [x3, x3, scale_1e8 (inp (8 * k)), scale_1e8 (inp (8 * k + 4)),
                        scale_1e8 (inp (8 * k + 2)), scale_1e8 (inp (8 * k + 6))])
                 [0..<n])"
  by (simp add: nautilus_process_tick_batch_def tick_vector_loop_eq)

lemma process_tick_by_tick_eq:
  "process_tick_by_tick inp n x3 =
     concat (map (\<lambda>k. [x3, scale_1e8 (inp (4 * k)), scale_1e8 (inp (4 * k + 1))]) [0..<n])"
  by (simp add: process_tick_by_tick_def nautilus_process_tick_batch_def)

lemma scale_1e8_small:
  "scale_1e8 1 = 100000000" "scale_1e8 2 = 200000000" "scale_1e8 3 = 300000000"
  "scale_1e8 5 = 500000000" "scale_1e8 6 = 600000000" "scale_1e8 7 = 700000000"
  by (simp_all add: scale_1e8_def fcvtzs_def)

text \<open>
  Claim C9 says that the two-at-a-time path gives, record for record and offset for
  offset, what one-at-a-time processing gives. For two ticks (price 1, quantity 2,
  timestamp 3; price 5, quantity 6, timestamp 7) and instrument 9 the vector path
  stores id, id, price, price, quantity, quantity, and takes each quantity from the
  third slot of the record (the timestamp): 9, 9, 1e8, 5e8, 3e8, 7e8. One call per
  tick stores id, price, quantity for each tick, the quantity from the second slot:
  9, 1e8, 2e8, 9, 5e8, 6e8.
\<close>

theorem C9_vector_path_layout:
  "nautilus_process_tick_batch two_ticks 2 9 =
     [9, 9, 100000000, 500000000, 300000000, 700000000] \<and>
   process_tick_by_tick two_ticks 2 9 =
     [9, 100000000, 200000000, 9, 500000000, 600000000]"
proof -
  have "tick_vector_loop two_ticks 9 (Suc 0) 0 [] =
      (8, [9, 9, 100000000, 500000000, 300000000, 700000000])"
    by (simp add: two_ticks_def scale_1e8_small)
  then have "nautilus_process_tick_batch two_ticks 2 9 =
      [9, 9, 100000000, 500000000, 300000000, 700000000]"
    by (simp add: nautilus_process_tick_batch_def)
  moreover have "process_tick_by_tick two_ticks 2 9 =
      [9, 100000000, 200000000, 9, 500000000, 600000000]"
    by (simp add: process_tick_by_tick_def nautilus_process_tick_batch_def two_ticks_def
        scale_1e8_small upt_rec)
  ultimately show ?thesis by simp
qed


section \<open>Properties of the order book\<close>

text \<open>
  A price that no level of the searched range holds is not found, whatever the order
  of the levels.
\<close>

lemma binary_search_absent:
  "(\<And>i. x11 \<le> i \<Longrightarrow> i < x12 \<Longrightarrow> price_field (x9 i) \<noteq> x2) \<Longrightarrow>
   \<exists>p. binary_search x9 x1 x2 x11 x12 = Not_found p"
proof (induction x9 x1 x2 x11 x12 rule: binary_search.induct)
  case (1 x9 x1 x2 x11 x12)
  show ?case
  proof (cases "x12 \<le> x11")
    case True
    then show ?thesis by (simp add: binary_search.simps)
  next
    case False
    define x13 where "x13 = (x11 + x12) div 2"
    from False have mid: "x11 \<le> x13" "x13 < x12" by (simp_all add: x13_def)
    then have ne: "x2 \<noteq> price_field (x9 x13)"
      using "1.prems" [of x13] by auto
    have absent_left: "price_field (x9 i) \<noteq> x2" if "x11 \<le> i" "i < x13" for i
      using that mid "1.prems" [of i] by simp
    have absent_right: "price_field (x9 i) \<noteq> x2" if "x13 + 1 \<le> i" "i < x12" for i
      using that mid "1.prems" [of i] by simp
    show ?thesis
    proof (cases "x1 = 0")
      case bid: True
      show ?thesis
      proof (cases "sint (price_field (x9 x13)) < sint x2")
        case True
        have "\<exists>p. binary_search x9 x1 x2 x11 x13 = Not_found p"
          using "1.IH"(1) [OF False ne [unfolded x13_def] bid True [unfolded x13_def]]
            absent_left unfolding x13_def by blast
        then show ?thesis
          using False ne bid True
          by (subst binary_search.simps) (simp add: x13_def)
      next
        case notless: False
        have "\<exists>p. binary_search x9 x1 x2 (x13 + 1) x12 = Not_found p"
          using "1.IH"(2) [OF False ne [unfolded x13_def] bid notless [unfolded x13_def]]
            absent_right unfolding x13_def by blast
        then show ?thesis
          using False ne bid notless
          by (subst binary_search.simps) (simp add: x13_def)
      qed
    next
      case ask: False
      show ?thesis
      proof (cases "sint x2 < sint (price_field (x9 x13))")
        case True
        have "\<exists>p. binary_search x9 x1 x2 x11 x13 = Not_found p"
          using "1.IH"(3) [OF False ne [unfolded x13_def] ask True [unfolded x13_def]]
            absent_left unfolding x13_def by blast
        then show ?thesis
          using False ne ask True
          by (subst binary_search.simps) (simp add: x13_def)
      next
        case notless: False
        have "\<exists>p. binary_search x9 x1 x2 (x13 + 1) x12 = Not_found p"
          using "1.IH"(4) [OF False ne [unfolded x13_def] ask notless [unfolded x13_def]]
            absent_right unfolding x13_def by blast
        then show ?thesis
          using False ne ask notless
          by (subst binary_search.simps) (simp add: x13_def)
      qed
    qed
  qed
qed

text \<open>
  The three paths of the routine, for every book. A price that is not found and a zero
  quantity: nothing changes, whatever the action. A price that is not found and any
  other quantity: the level is inserted, whatever the action and the capacity. A price
  that is found and an action other than 1: the quantity is stored, zero included.
\<close>

lemma update_not_found_zero_quantity:
  assumes "binary_search (if x1 = 0 then bids_array b else asks_array b) x1 x2 0
             (unat (if x1 = 0 then bid_count b else ask_count b)) = Not_found x11"
  shows "nautilus_update_l2_level b x1 x2 0 x4 = (b, 0)"
  using assms by (cases "x1 = 0") (simp_all add: nautilus_update_l2_level_def Let_def)

lemma update_not_found_inserts:
  assumes "binary_search (if x1 = 0 then bids_array b else asks_array b) x1 x2 0
             (unat (if x1 = 0 then bid_count b else ask_count b)) = Not_found x11"
    and "x3 \<noteq> 0"
  shows "snd (nautilus_update_l2_level b x1 x2 x3 x4) = (if x11 = 0 then 3 else 1) \<and>
     sequence (fst (nautilus_update_l2_level b x1 x2 x3 x4)) = sequence b + 1 \<and>
     (if x1 = 0 then bid_count (fst (nautilus_update_l2_level b x1 x2 x3 x4)) = bid_count b + 1
      else ask_count (fst (nautilus_update_l2_level b x1 x2 x3 x4)) = ask_count b + 1) \<and>
     (if x1 = 0 then bids_array (fst (nautilus_update_l2_level b x1 x2 x3 x4)) x11
      else asks_array (fst (nautilus_update_l2_level b x1 x2 x3 x4)) x11)
       = \<lparr>price_field = x2, quantity_field = x3\<rparr>"
  using assms
  by (cases "x1 = 0") (simp_all add: nautilus_update_l2_level_def Let_def update_counts_def)

lemma update_found_stores_quantity:
  assumes "binary_search (if x1 = 0 then bids_array b else asks_array b) x1 x2 0
             (unat (if x1 = 0 then bid_count b else ask_count b)) = Found_exact x19"
    and "x4 \<noteq> 1"
  shows "snd (nautilus_update_l2_level b x1 x2 x3 x4) = (if x19 = 0 then 3 else 1) \<and>
     bid_count (fst (nautilus_update_l2_level b x1 x2 x3 x4)) = bid_count b \<and>
     ask_count (fst (nautilus_update_l2_level b x1 x2 x3 x4)) = ask_count b \<and>
     quantity_field ((if x1 = 0 then bids_array (fst (nautilus_update_l2_level b x1 x2 x3 x4))
      else asks_array (fst (nautilus_update_l2_level b x1 x2 x3 x4))) x19) = x3"
  using assms
  by (cases "x1 = 0") (simp_all add: nautilus_update_l2_level_def Let_def update_counts_def)

text \<open>
  Hence, for every book and side: a price held by none of the side's levels, offered
  with a non-zero quantity, is inserted. The count and the sequence number go up by
  one and \<open>book_changed\<close> is returned, whether the action is an upsert or a remove and
  whether or not the side was already at its capacity. With quantity zero the same
  call changes nothing.
\<close>

lemma absent_price_is_inserted:
  assumes "\<And>i. i < unat (if x1 = 0 then bid_count b else ask_count b) \<Longrightarrow>
             price_field ((if x1 = 0 then bids_array b else asks_array b) i) \<noteq> x2"
    and "x3 \<noteq> 0"
  shows "book_changed (snd (nautilus_update_l2_level b x1 x2 x3 x4)) \<and>
     sequence (fst (nautilus_update_l2_level b x1 x2 x3 x4)) = sequence b + 1 \<and>
     (if x1 = 0 then bid_count (fst (nautilus_update_l2_level b x1 x2 x3 x4)) = bid_count b + 1
      else ask_count (fst (nautilus_update_l2_level b x1 x2 x3 x4)) = ask_count b + 1)"
proof -
  obtain x11 where nf:
    "binary_search (if x1 = 0 then bids_array b else asks_array b) x1 x2 0
       (unat (if x1 = 0 then bid_count b else ask_count b)) = Not_found x11"
    using binary_search_absent [of 0 "unat (if x1 = 0 then bid_count b else ask_count b)"
        "if x1 = 0 then bids_array b else asks_array b" x2 x1] assms(1)
    by blast
  have "book_changed (if x11 = 0 then 3 else 1)"
    by (simp add: book_changed_def)
  with update_not_found_inserts [OF nf assms(2), of x4] show ?thesis
    by (cases "x1 = 0") simp_all
qed

lemma absent_price_zero_quantity_noop:
  assumes "\<And>i. i < unat (if x1 = 0 then bid_count b else ask_count b) \<Longrightarrow>
             price_field ((if x1 = 0 then bids_array b else asks_array b) i) \<noteq> x2"
  shows "nautilus_update_l2_level b x1 x2 0 x4 = (b, 0)"
proof -
  obtain x11 where nf:
    "binary_search (if x1 = 0 then bids_array b else asks_array b) x1 x2 0
       (unat (if x1 = 0 then bid_count b else ask_count b)) = Not_found x11"
    using binary_search_absent [of 0 "unat (if x1 = 0 then bid_count b else ask_count b)"
        "if x1 = 0 then bids_array b else asks_array b" x2 x1] assms
    by blast
  then show ?thesis by (rule update_not_found_zero_quantity)
qed

lemma full_bid_book_eq:
  "full_bid_book =
     (empty_book 1)
       \<lparr>bids_array := (\<lambda>i. \<lparr>price_field = 0, quantity_field = 0\<rparr>)
          (0 := \<lparr>price_field = 10000000000, quantity_field = 100000000\<rparr>),
        bid_count := 1, sequence := 1\<rparr>"
  by (simp add: full_bid_book_def nautilus_update_l2_level_def update_counts_def
      empty_book_def binary_search.simps insert_shift_loop.simps)

text \<open>
  Claim C2 says that an upsert of a new price into a full side fails and leaves the
  book as it was. The routine never reads a capacity. On a bid side of capacity 1 that
  holds the level 100.00, an upsert of 200.00 moves that level to index 1, beyond the
  array, stores the new level at index 0, raises the count to 2 and the sequence
  number by one, and returns both flags set.
\<close>

theorem C2_insert_into_full_side:
  "bid_count full_bid_book = 1 \<and> bid_capacity full_bid_book = 1 \<and>
   (case nautilus_update_l2_level full_bid_book 0 20000000000 100000000 0 of
      (b, flags) \<Rightarrow>
        bid_count b = 2 \<and> bid_capacity b = 1 \<and>
        sequence b = sequence full_bid_book + 1 \<and>
        book_changed flags \<and> top_changed flags \<and>
        bids_array b 0 = \<lparr>price_field = 20000000000, quantity_field = 100000000\<rparr> \<and>
        bids_array b 1 = \<lparr>price_field = 10000000000, quantity_field = 100000000\<rparr>)"
  by (simp add: full_bid_book_eq nautilus_update_l2_level_def update_counts_def
      empty_book_def binary_search.simps insert_shift_loop.simps
      book_changed_def top_changed_def)

text \<open>
  Claim C3 says that an upsert with quantity 0 removes the level. On the path of a
  price that is found the routine looks at the action only: after an upsert of 100.00
  with quantity 1 into an empty book, an upsert of 100.00 with quantity 0 stores the
  quantity 0 in place. The side still counts one level, that level has quantity 0, and
  the best bid is still 100.00 rather than the value 0 of an empty side.
\<close>

theorem C3_zero_quantity_upsert_keeps_level:
  "(case nautilus_update_l2_level
           (fst (nautilus_update_l2_level (empty_book 4) 0 10000000000 100000000 0))
           0 10000000000 0 0 of
      (b, flags) \<Rightarrow>
        bid_count b = 1 \<and>
        bids_array b 0 = \<lparr>price_field = 10000000000, quantity_field = 0\<rparr> \<and>
        fst (nautilus_get_best_bid_ask b) = 10000000000)"
  by (simp add: nautilus_update_l2_level_def update_counts_def
      empty_book_def binary_search.simps insert_shift_loop.simps
      nautilus_get_best_bid_ask_def)

text \<open>
  Claim C4 says that removing a price that is not on the side changes nothing, whatever
  the quantity argument. On the path of a price that is not found the routine looks at
  the quantity only: a remove (action 1) of 100.00 with quantity 5 on an empty book
  inserts the level, raises the count and the sequence number, and returns both flags
  set.
\<close>

theorem C4_remove_absent_inserts:
  "(case nautilus_update_l2_level (empty_book 4) 0 10000000000 500000000 1 of
      (b, flags) \<Rightarrow>
        book_changed flags \<and> top_changed flags \<and>
        bid_count b = 1 \<and> sequence b = 1 \<and>
        bids_array b 0 = \<lparr>price_field = 10000000000, quantity_field = 500000000\<rparr>)"
  by (simp add: nautilus_update_l2_level_def update_counts_def
      empty_book_def binary_search.simps insert_shift_loop.simps
      book_changed_def top_changed_def)


end
